theory Spec2Isabelle
  imports Complex_Main "HOL-Library.Sublist"
begin

section \<open>JavaScript values used by the gateway (src/server.js)\<close>

text \<open>
  A JavaScript string is a sequence of UTF-16 code units; \<open>length\<close>, \<open>slice\<close> and
  \<open>indexOf\<close> count code units. The model uses \<^typ>\<open>string\<close>, reading each \<^typ>\<open>char\<close> as
  one code unit in the range U+0000..U+00FF, so \<^const>\<open>length\<close>, \<^const>\<open>take\<close> and
  \<^const>\<open>drop\<close> are \<open>length\<close>, \<open>slice(0, n)\<close> and \<open>slice(n)\<close>.
\<close>

abbreviation LF :: char where
  "LF \<equiv> CHR 0x0A"

text \<open>
  \<open>String.prototype.trim\<close>, \<open>trimStart\<close> and \<open>trimEnd\<close> strip white space and line
  terminators. Of those, the code units below U+0100 are TAB, LF, VT, FF, CR, SPACE
  and NO-BREAK SPACE.
\<close>

definition is_js_space :: "char \<Rightarrow> bool" where
  "is_js_space c = ((of_char c :: nat) \<in> {9, 10, 11, 12, 13, 32, 160})"

definition trimStart :: "string \<Rightarrow> string" where
  "trimStart s = dropWhile is_js_space s"

definition trimEnd :: "string \<Rightarrow> string" where
  "trimEnd s = rev (dropWhile is_js_space (rev s))"

definition trim :: "string \<Rightarrow> string" where
  "trim s = trimEnd (trimStart s)"

definition startsWith :: "string \<Rightarrow> string \<Rightarrow> bool" where
  "startsWith s p = (take (length p) s = p)"

text \<open>\<open>s.indexOf(p)\<close>: the first position at which \<open>p\<close> occurs, \<open>None\<close> for \<open>-1\<close>.\<close>

fun indexOf :: "string \<Rightarrow> string \<Rightarrow> nat option" where
  "indexOf [] p = (if p = [] then Some 0 else None)"
| "indexOf (c # cs) p =
     (if startsWith (c # cs) p then Some 0 else map_option Suc (indexOf cs p))"

text \<open>\<open>s.split(sep)\<close> for a one-character separator: never empty, \<open>"".split(sep)\<close> is \<open>[""]\<close>.\<close>

fun split_on :: "char \<Rightarrow> string \<Rightarrow> string list" where
  "split_on sep [] = [[]]"
| "split_on sep (c # cs) =
     (if c = sep then [] # split_on sep cs
      else (case split_on sep cs of
              [] \<Rightarrow> [[c]]
            | l # ls \<Rightarrow> (c # l) # ls))"

text \<open>\<open>xs.join(sep)\<close>.\<close>

fun join :: "string \<Rightarrow> string list \<Rightarrow> string" where
  "join sep [] = []"
| "join sep [x] = x"
| "join sep (x # y # zs) = x @ sep @ join sep (y # zs)"

text \<open>
  \<open>String.prototype.toLowerCase\<close> on code units below U+0100: the letters A-Z and the
  Latin-1 capitals U+00C0..U+00DE (without the multiplication sign U+00D7) move up by 32,
  every other code unit of that range is its own lower case.
\<close>

definition lower_char :: "char \<Rightarrow> char" where
  "lower_char c =
     (let n = (of_char c :: nat)
      in if (65 \<le> n \<and> n \<le> 90) \<or> (192 \<le> n \<and> n \<le> 222 \<and> n \<noteq> 215)
         then char_of (n + 32) else c)"

definition toLowerCase :: "string \<Rightarrow> string" where
  "toLowerCase s = map lower_char s"

text \<open>
  The values \<open>JSON.parse\<close> returns and a request body holds. An object is the list of
  its own properties; \<open>undefined\<close> is \<open>None\<close> of an option.
\<close>

datatype json =
    JNull
  | JBool bool
  | JNum real
  | JStr string
  | JArr "json list"
  | JObj "(string \<times> json) list"

datatype js_error = TypeError | SyntaxError

text \<open>JavaScript truthiness, as \<open>!v\<close>, \<open>v || d\<close> and \<open>v && w\<close> use it.\<close>

fun truthy :: "json \<Rightarrow> bool" where
  "truthy JNull = False"
| "truthy (JBool b) = b"
| "truthy (JNum n) = (n \<noteq> 0)"
| "truthy (JStr s) = (s \<noteq> [])"
| "truthy (JArr _) = True"
| "truthy (JObj _) = True"

text \<open>
  Reading the property \<open>k\<close> of a value for the names the gateway reads (\<open>messages\<close>,
  \<open>value\<close>, \<open>text\<close>, \<open>content\<close>, \<open>message\<close>): only an object can own one of them; on a
  string, number, boolean or array the read gives \<open>undefined\<close>.
\<close>

fun getProp :: "json \<Rightarrow> string \<Rightarrow> json option" where
  "getProp (JObj kvs) k = map_of kvs k"
| "getProp _ k = None"

section \<open>Model names\<close>

text \<open>
  \<^verbatim>\<open>
  function normalizeMode(model) {
    const m = (model || "auto").toLowerCase();
    if (m === "gpt-5.2-fast") return "fast";
    if (m === "gpt-5.2-deep") return "deep";
    if (["auto", "fast", "deep"].includes(m)) return m;
    return "auto";
  }
  \<close>
  The argument is the \<open>model\<close> of the request body: absent (\<open>None\<close>) or any JSON value.
  A truthy value that is not a string has no \<open>toLowerCase\<close>, and the call raises a
  \<open>TypeError\<close>.
\<close>

definition normalizeMode :: "json option \<Rightarrow> js_error + string" where
  "normalizeMode model =
     (case (case model of
              None \<Rightarrow> JStr ''auto''
            | Some v \<Rightarrow> if truthy v then v else JStr ''auto'') of
        JStr s \<Rightarrow>
          (let m = toLowerCase s
           in if m = ''gpt-5.2-fast'' then Inr ''fast''
              else if m = ''gpt-5.2-deep'' then Inr ''deep''
              else if m \<in> set [''auto'', ''fast'', ''deep''] then Inr m
              else Inr ''auto'')
      | _ \<Rightarrow> Inl TypeError)"

section \<open>Best-effort text of an upstream payload\<close>

text \<open>\<open>typeof v === "object"\<close>: \<open>null\<close>, arrays and objects.\<close>

fun is_object :: "json \<Rightarrow> bool" where
  "is_object JNull = True"
| "is_object (JArr _) = True"
| "is_object (JObj _) = True"
| "is_object _ = False"

text \<open>
  \<^verbatim>\<open>
  function extractTextFromMessage(msg) {
    if (!msg || typeof msg !== "object") return null;
    if (typeof msg.text === "string") return msg.text;
    if (typeof msg.content === "string") return msg.content;
    if (msg.message && typeof msg.message.text === "string") return msg.message.text;
    return null;
  }
  \<close>
\<close>

definition extractTextFromMessage :: "json \<Rightarrow> string option" where
  "extractTextFromMessage msg =
     (if \<not> truthy msg \<or> \<not> is_object msg then None
      else case getProp msg ''text'' of
             Some (JStr s) \<Rightarrow> Some s
           | _ \<Rightarrow>
          (case getProp msg ''content'' of
             Some (JStr s) \<Rightarrow> Some s
           | _ \<Rightarrow>
          (case getProp msg ''message'' of
             None \<Rightarrow> None
           | Some m \<Rightarrow>
               if truthy m
               then (case getProp m ''text'' of Some (JStr s) \<Rightarrow> Some s | _ \<Rightarrow> None)
               else None)))"

text \<open>
  One \<open>for (let i = msgs.length - 1; i >= 0; i--)\<close> loop of \<open>extractBestTextFromEvent\<close>,
  over the messages listed from the last to the first: a message without text, with an
  empty text (\<open>!t\<close>) or with a text to skip is passed over, the first other text is
  returned.
\<close>

fun scan_texts :: "(string \<Rightarrow> bool) \<Rightarrow> json list \<Rightarrow> string option" where
  "scan_texts skip [] = None"
| "scan_texts skip (m # ms) =
     (case extractTextFromMessage m of
        None \<Rightarrow> scan_texts skip ms
      | Some t \<Rightarrow> if t = [] \<or> skip t then scan_texts skip ms else Some t)"

text \<open>
  \<^verbatim>\<open>
  function extractBestTextFromEvent(obj, promptEcho) {
    const msgs = obj?.messages;
    if (Array.isArray(msgs) && msgs.length) {
      for (let i = msgs.length - 1; i >= 0; i--) {
        const t = extractTextFromMessage(msgs[i]);
        if (!t) continue;
        if (promptEcho && t.trim() === promptEcho.trim()) continue;
        return t;
      }
      for (let i = msgs.length - 1; i >= 0; i--) {
        const t = extractTextFromMessage(msgs[i]);
        if (t) return t;
      }
    }
    const wrapped = obj?.value?.messages;
    if (Array.isArray(wrapped) && wrapped.length) {
      for (let i = wrapped.length - 1; i >= 0; i--) {
        const t = extractTextFromMessage(wrapped[i]);
        if (t) return t;
      }
    }
    return null;
  }
  \<close>
  \<open>None\<close> is \<open>null\<close>.
\<close>

definition extractBestTextFromEvent :: "json \<Rightarrow> string \<Rightarrow> string option" where
  "extractBestTextFromEvent obj promptEcho =
     (let primary =
        (case getProp obj ''messages'' of
           Some (JArr msgs) \<Rightarrow>
             if msgs \<noteq> []
             then (case scan_texts (\<lambda>t. promptEcho \<noteq> [] \<and> trim t = trim promptEcho) (rev msgs) of
                     Some t \<Rightarrow> Some t
                   | None \<Rightarrow> scan_texts (\<lambda>t. False) (rev msgs))
             else None
         | _ \<Rightarrow> None)
      in case primary of
           Some t \<Rightarrow> Some t
         | None \<Rightarrow>
            (case Option.bind (getProp obj ''value'') (\<lambda>v. getProp v ''messages'') of
               Some (JArr wrapped) \<Rightarrow>
                 if wrapped \<noteq> [] then scan_texts (\<lambda>t. False) (rev wrapped) else None
             | _ \<Rightarrow> None))"

section \<open>The diagnostic list of recent upstream samples\<close>

text \<open>
  The samples live in the Redis list \<open>debug:last_events\<close>, newest first. \<open>LPUSH\<close> puts
  a value at the head. \<open>LTRIM key start stop\<close> keeps the elements from index \<open>start\<close>
  to index \<open>stop\<close>, both included; a negative index counts from the end, a \<open>start\<close>
  past the end or past \<open>stop\<close> empties the list, a \<open>stop\<close> past the end is the last
  element.
\<close>

definition lpush :: "'a list \<Rightarrow> 'a \<Rightarrow> 'a list" where
  "lpush xs x = x # xs"

definition ltrim :: "'a list \<Rightarrow> int \<Rightarrow> int \<Rightarrow> 'a list" where
  "ltrim xs start stop =
     (let llen = int (length xs);
          s0 = (if start < 0 then llen + start else start);
          e0 = (if stop < 0 then llen + stop else stop);
          s = (if s0 < 0 then 0 else s0)
      in if s > e0 \<or> s \<ge> llen then []
         else (let e = (if e0 \<ge> llen then llen - 1 else e0)
               in take (nat (e - s + 1)) (drop (nat s) xs)))"

text \<open>
  The entry \<open>{ ts, requestId, conversationId, sample }\<close>; the wall-clock reading \<open>ts\<close> is
  left out.
\<close>

record debug_event =
  ev_requestId :: string
  ev_conversationId :: string
  sample :: string

text \<open>
  \<open>DEBUG_EVENT_LIMIT = parseInt(env.DEBUG_EVENT_LIMIT || "50", 10)\<close> (line 73) is \<open>NaN\<close>
  for a setting that does not start with an integer, and else the integer. (An integer
  beyond \<open>2^53\<close> would be rounded to a double; the statements about the limit are for
  integers up to \<open>2^53\<close>, where \<open>DEBUG_EVENT_LIMIT - 1\<close> is exact.)
\<close>

datatype parsed_int = NaN | Num int

text \<open>\<open>Math.max(0, DEBUG_EVENT_LIMIT - 1)\<close>: \<open>NaN - 1\<close> and \<open>Math.max(0, NaN)\<close> are \<open>NaN\<close>.\<close>

definition trim_stop :: "parsed_int \<Rightarrow> parsed_int" where
  "trim_stop limit = (case limit of NaN \<Rightarrow> NaN | Num n \<Rightarrow> Num (max 0 (n - 1)))"

text \<open>
  The command \<open>LTRIM key start stop\<close> as the client sends it: Redis refuses an index
  that is not an integer of 64 bits (the client writes \<open>NaN\<close> as the text \<open>NaN\<close>) and
  leaves the list as it is; the promise of \<open>redis.ltrim\<close> is then rejected (\<open>Inl\<close>).
\<close>

definition redis_ltrim :: "'a list \<Rightarrow> int \<Rightarrow> parsed_int \<Rightarrow> string + 'a list" where
  "redis_ltrim xs start stop =
     (case stop of
        NaN \<Rightarrow> Inl ''ERR value is not an integer or out of range''
      | Num e \<Rightarrow>
          if - (2 ^ 63) \<le> e \<and> e < 2 ^ 63 then Inr (ltrim xs start e)
          else Inl ''ERR value is not an integer or out of range'')"

text \<open>
  \<^verbatim>\<open>
  async function pushDebugEvent(obj) {
    try {
      const key = "debug:last_events";
      await redis.lpush(key, JSON.stringify(obj));
      await redis.ltrim(key, 0, Math.max(0, DEBUG_EVENT_LIMIT - 1));
      await redis.expire(key, 3600);
    } catch {}
  }
  \<close>
  on the list it finds, with \<open>DEBUG_EVENT_LIMIT\<close> as a parameter. When the trim is
  refused the empty \<open>catch\<close> swallows the rejection and the list stays as the push left
  it. The expiry of the whole list after an hour without a push, and a Redis that
  cannot be reached, are not modelled.
\<close>

definition pushDebugEvent :: "parsed_int \<Rightarrow> 'a list \<Rightarrow> 'a \<Rightarrow> 'a list" where
  "pushDebugEvent limit events obj =
     (let pushed = lpush events obj
      in case redis_ltrim pushed 0 (trim_stop limit) of
           Inl err \<Rightarrow> pushed
         | Inr trimmed \<Rightarrow> trimmed)"

section \<open>The streaming translation loop of POST /v1/chat/completions\<close>

text \<open>
  What the handler writes to the caller: \<open>res.write("data: " + JSON.stringify(chunk) +
  "\n\n")\<close> is \<open>Data chunk\<close>, any other \<open>res.write(s)\<close> is \<open>Raw s\<close>, and \<open>res.end()\<close> is
  \<open>End\<close>. A chunk is the object the handler builds, without its \<open>created\<close> time stamp
  and the constant \<open>index: 0\<close>; \<open>delta_content = None\<close> is the empty delta \<open>{}\<close> and
  \<open>finish_reason = None\<close> is \<open>null\<close>.
\<close>

record chunk =
  chunk_id :: string
  chunk_object :: string
  chunk_model :: json
  delta_content :: "string option"
  finish_reason :: "string option"

datatype wire = Data chunk | Raw string | End

text \<open>
  What the loop reads and never changes: the request's correlation id, the upstream
  conversation, the request's \<open>model\<close> as the caller gave it, the prompt, the settings
  \<open>EMPTY_RESPONSE_HINT\<close> and \<open>DEBUG_EVENT_LIMIT\<close>, and \<open>JSON.parse\<close> (\<open>None\<close> when it
  raises). The advisory text of line 685 is outside the code units modelled and is a
  parameter as well.
\<close>

record stream_env =
  requestId :: string
  conversationId :: string
  model :: json
  prompt :: string
  JSON_parse :: "string \<Rightarrow> json option"
  EMPTY_RESPONSE_HINT :: bool
  hint_text :: string
  DEBUG_EVENT_LIMIT :: parsed_int

text \<open>
  The variables of the loop (\<open>carry\<close>, \<open>fullText\<close>, \<open>blocks\<close>, \<open>jsonFail\<close>), the
  response written so far (oldest first) and the Redis list of samples.
\<close>

record stream_state =
  carry :: string
  fullText :: string
  blocks :: nat
  jsonFail :: nat
  written :: "wire list"
  debug_last_events :: "debug_event list"

definition delta_chunk :: "stream_env \<Rightarrow> string \<Rightarrow> chunk" where
  "delta_chunk env delta =
     \<lparr>chunk_id = ''chatcmpl_'' @ conversationId env,
      chunk_object = ''chat.completion.chunk'',
      chunk_model = model env,
      delta_content = Some delta,
      finish_reason = None\<rparr>"

definition stop_chunk :: "stream_env \<Rightarrow> chunk" where
  "stop_chunk env =
     \<lparr>chunk_id = ''chatcmpl_'' @ conversationId env,
      chunk_object = ''chat.completion.chunk'',
      chunk_model = model env,
      delta_content = None,
      finish_reason = Some ''stop''\<rparr>"

definition sendDelta :: "stream_env \<Rightarrow> string \<Rightarrow> stream_state \<Rightarrow> stream_state" where
  "sendDelta env delta st = st\<lparr>written := written st @ [Data (delta_chunk env delta)]\<rparr>"

definition sendStop :: "stream_env \<Rightarrow> stream_state \<Rightarrow> stream_state" where
  "sendStop env st =
     st\<lparr>written := written st @ [Data (stop_chunk env), Raw (''data: [DONE]'' @ [LF, LF]), End]\<rparr>"

text \<open>
  The data lines of a block and its payload (lines 648 to 655):
  \<^verbatim>\<open>
  const lines = block.split("\n");
  const dataLines = lines
    .map((l) => l.trimEnd())
    .filter((l) => l.startsWith("data:"))
    .map((l) => l.slice(5).trimStart());
  ...
  const payload = dataLines.join("\n").trim();
  \<close>
\<close>

definition dataLines :: "string \<Rightarrow> string list" where
  "dataLines block =
     map (\<lambda>l. trimStart (drop 5 l))
       (filter (\<lambda>l. startsWith l ''data:'') (map trimEnd (split_on LF block)))"

definition payload_of :: "string \<Rightarrow> string" where
  "payload_of block = trim (join [LF] (dataLines block))"

text \<open>
  The watermark (lines 672 to 677), for the text extracted from a payload:
  \<^verbatim>\<open>
  if (typeof text === "string" && text.length > fullText.length) {
    const delta = text.slice(fullText.length);
    fullText = text;
    if (delta) sendDelta(delta);
  }
  \<close>
\<close>

definition watermark :: "stream_env \<Rightarrow> string option \<Rightarrow> stream_state \<Rightarrow> stream_state" where
  "watermark env text st =
     (case text of
        None \<Rightarrow> st
      | Some t \<Rightarrow>
          if length t > length (fullText st)
          then (let delta = drop (length (fullText st)) t;
                    st' = st\<lparr>fullText := t\<rparr>
                in if delta \<noteq> [] then sendDelta env delta st' else st')
          else st)"

text \<open>
  The body of the inner loop for one block (lines 646 to 677): count the block, leave
  it when it has no data line or an empty payload, count a payload that does not parse
  and leave it, else push the sample and move the watermark. (The log line for a
  payload with an \<open>error\<close> field writes nothing to the caller and is left out.)
\<close>

definition process_block :: "stream_env \<Rightarrow> string \<Rightarrow> stream_state \<Rightarrow> stream_state" where
  "process_block env block st0 =
     (let st = st0\<lparr>blocks := blocks st0 + 1\<rparr>
      in if dataLines block = [] then st
         else if payload_of block = [] then st
         else (case JSON_parse env (payload_of block) of
                 None \<Rightarrow> st\<lparr>jsonFail := jsonFail st + 1\<rparr>
               | Some obj \<Rightarrow>
                   watermark env (extractBestTextFromEvent obj (prompt env))
                     (st\<lparr>debug_last_events :=
                          pushDebugEvent (DEBUG_EVENT_LIMIT env) (debug_last_events st)
                            \<lparr>ev_requestId = requestId env,
                             ev_conversationId = conversationId env,
                             sample = take 400 (payload_of block)\<rparr>\<rparr>)))"

text \<open>
  The inner loop (lines 641 to 678): while the carry holds a blank line, cut the block
  before it off the carry and process it.
  \<^verbatim>\<open>
  while (true) {
    const idx = carry.indexOf("\n\n");
    if (idx == -1) break;
    const block = carry.slice(0, idx);
    carry = carry.slice(idx + 2);
    blocks++;
    ...
  }
  \<close>
\<close>

function extract_blocks :: "stream_env \<Rightarrow> stream_state \<Rightarrow> stream_state" where
  "extract_blocks env st =
     (case indexOf (carry st) [LF, LF] of
        None \<Rightarrow> st
      | Some idx \<Rightarrow>
          extract_blocks env
            (process_block env (take idx (carry st)) (st\<lparr>carry := drop (idx + 2) (carry st)\<rparr>)))"
  by pat_completeness auto

lemma indexOf_bound: "indexOf s p = Some i \<Longrightarrow> i + length p \<le> length s"
proof (induction s arbitrary: i)
  case Nil
  then show ?case by (simp split: if_splits)
next
  case (Cons c cs)
  show ?case
  proof (cases "startsWith (c # cs) p")
    case True
    with Cons.prems have "i = 0" by simp
    moreover have "length p \<le> length (c # cs)"
    proof -
      from True have "length (take (length p) (c # cs)) = length p"
        unfolding startsWith_def by simp
      then show ?thesis
        unfolding length_take by linarith
    qed
    ultimately show ?thesis by simp
  next
    case False
    with Cons.prems obtain j where "indexOf cs p = Some j" and "i = Suc j"
      by auto
    with Cons.IH show ?thesis by fastforce
  qed
qed

lemma sendDelta_carry: "carry (sendDelta env d st) = carry st"
  by (simp add: sendDelta_def)

lemma watermark_carry: "carry (watermark env t st) = carry st"
  by (simp add: watermark_def Let_def sendDelta_carry split: option.splits)

lemma process_block_carry: "carry (process_block env b st) = carry st"
  by (simp add: process_block_def Let_def watermark_carry split: option.splits)

termination extract_blocks
proof (relation "measure (\<lambda>(env, st). length (carry st))")
  show "wf (measure (\<lambda>(env, st). length (carry st)))" by simp
next
  fix env :: stream_env and st :: stream_state and idx
  assume "indexOf (carry st) [LF, LF] = Some idx"
  then have "idx + 2 \<le> length (carry st)"
    using indexOf_bound by fastforce
  then show "((env, process_block env (take idx (carry st))
                 (st\<lparr>carry := drop (idx + 2) (carry st)\<rparr>)), (env, st))
             \<in> measure (\<lambda>(env, st). length (carry st))"
    by (simp add: process_block_carry)
qed

text \<open>
  One \<open>await reader.read()\<close>: a chunk of the upstream body, given as the text the
  streaming \<open>TextDecoder\<close> makes of it, or a rejection (the connection was reset, the
  body could not be read); an exception of \<open>dec.decode\<close> leaves the loop at the same
  point, before the carry changes, and is a \<open>Failure\<close> too. The end of the list is
  \<open>done\<close>; an upstream that neither ends nor fails is not a list.
\<close>

datatype read_result = Value string | Failure

text \<open>
  The outer loop inside \<open>try { ... } catch (e) { log(...) }\<close> (lines 633 to 682): a
  rejected read leaves the loop, and the handler goes on after the \<open>catch\<close>.
\<close>

fun read_loop :: "stream_env \<Rightarrow> read_result list \<Rightarrow> stream_state \<Rightarrow> stream_state" where
  "read_loop env [] st = st"
| "read_loop env (Value v # rs) st =
     read_loop env rs (extract_blocks env (st\<lparr>carry := carry st @ v\<rparr>))"
| "read_loop env (Failure # rs) st = st"

definition initial_state :: "debug_event list \<Rightarrow> stream_state" where
  "initial_state events =
     \<lparr>carry = [], fullText = [], blocks = 0, jsonFail = 0, written = [],
      debug_last_events = events\<rparr>"

text \<open>
  The stream mode of the handler from line 599 on: the loop, then the advisory delta
  when no text arrived and \<open>EMPTY_RESPONSE_HINT\<close> is on (lines 684 to 686), then
  \<open>sendStop()\<close>.
\<close>

definition hint_if_empty :: "stream_env \<Rightarrow> stream_state \<Rightarrow> stream_state" where
  "hint_if_empty env st =
     (if fullText st = [] \<and> EMPTY_RESPONSE_HINT env then sendDelta env (hint_text env) st
      else st)"

definition stream_response ::
  "stream_env \<Rightarrow> read_result list \<Rightarrow> debug_event list \<Rightarrow> stream_state" where
  "stream_response env reads events =
     sendStop env (hint_if_empty env (read_loop env reads (initial_state events)))"

section \<open>Accounts, caller keys and the store\<close>

text \<open>
  An account as MSAL gives it; the gateway reads its \<open>homeAccountId\<close> only. An account
  object without that property is one with the empty \<open>homeAccountId\<close> (both are
  falsy).
\<close>

record account =
  homeAccountId :: string
  username :: string

text \<open>
  The transaction record under \<open>devtx:<txId>\<close>: a property is \<open>None\<close> when the object
  does not have it.
\<close>

record device_tx =
  txId :: string
  status :: "string option"
  createdAt :: "nat option"
  user_code :: "string option"
  verification_uri :: "string option"
  message :: "string option"
  expires_in :: "nat option"
  interval :: "nat option"
  user_key :: "string option"
  completedAt :: "nat option"
  error :: "string option"

text \<open>
  The Redis keys the gateway uses, one map for each prefix: \<open>userkey:<key>\<close> holds a
  \<open>homeAccountId\<close>, \<open>account:<homeAccountId>\<close> the account as JSON,
  \<open>msal:<homeAccountId>\<close> the serialized token cache, \<open>devtx:<txId>\<close> a transaction.
  A missing key reads as \<open>null\<close> (\<open>None\<close>). Expiry, and a Redis that fails, are not
  modelled.
\<close>

record store =
  userkey :: "string \<rightharpoonup> string"
  account_of :: "string \<rightharpoonup> account"
  msal :: "string \<rightharpoonup> string"
  devtx :: "string \<rightharpoonup> device_tx"

definition loadMsalCache :: "store \<Rightarrow> string \<Rightarrow> string option" where
  "loadMsalCache s home = msal s home"

definition saveMsalCache :: "store \<Rightarrow> string \<Rightarrow> string \<Rightarrow> store" where
  "saveMsalCache s home cache = s\<lparr>msal := (msal s)(home \<mapsto> cache)\<rparr>"

text \<open>
  \<^verbatim>\<open>
  async function getAccountByUserKey(userKey) {
    if (!userKey) return null;
    const home = await redis.get(`userkey:${userKey}`);
    if (!home) return null;
    return await redisGetJson(`account:${home}`);
  }
  \<close>
\<close>

definition getAccountByUserKey :: "store \<Rightarrow> string \<Rightarrow> account option" where
  "getAccountByUserKey s userKey =
     (if userKey = [] then None
      else (case userkey s userKey of
              None \<Rightarrow> None
            | Some home \<Rightarrow> if home = [] then None else account_of s home))"

section \<open>Account resolution of POST /v1/chat/completions\<close>

text \<open>
  What the handler reads of a request before it calls upstream: the \<open>authorization\<close>
  and \<open>x-user-key\<close> headers (a string when present), \<open>req.session?.account\<close>, and the
  \<open>model\<close> of the body.
\<close>

record request =
  authorization :: "string option"
  x_user_key :: "string option"
  session_account :: "account option"
  body_model :: "json option"

text \<open>
  \<^verbatim>\<open>
  function requireGatewayToken(req, res) {
    if (!API_BEARER_TOKEN) return true;
    const h = req.headers.authorization || "";
    if (h === `Bearer ${API_BEARER_TOKEN}`) return true;
    ...
    res.status(401).json({ error: { message: "Invalid gateway token" } });
    return false;
  }
  \<close>
\<close>

definition requireGatewayToken :: "string \<Rightarrow> request \<Rightarrow> bool" where
  "requireGatewayToken API_BEARER_TOKEN req =
     (if API_BEARER_TOKEN = [] then True
      else (case authorization req of None \<Rightarrow> [] | Some h \<Rightarrow> h) = ''Bearer '' @ API_BEARER_TOKEN)"

datatype user_context = UserKey string | Session account

text \<open>
  \<^verbatim>\<open>
  function getUserContext(req) {
    const userKey = req.headers["x-user-key"];
    if (typeof userKey === "string" && userKey.length > 10) return { type: "userkey", userKey };
    if (req.session?.account?.homeAccountId) return { type: "session", account: req.session.account };
    return null;
  }
  \<close>
\<close>

definition getUserContext :: "request \<Rightarrow> user_context option" where
  "getUserContext req =
     (let from_session =
        (case session_account req of
           None \<Rightarrow> None
         | Some a \<Rightarrow> if homeAccountId a \<noteq> [] then Some (Session a) else None)
      in case x_user_key req of
           None \<Rightarrow> from_session
         | Some userKey \<Rightarrow> if length userKey > 10 then Some (UserKey userKey) else from_session)"

text \<open>
  Lines 550 to 570 of the handler: the gateway token, \<open>normalizeMode(model)\<close>, the user
  context and the account. \<open>Reply status message\<close> is \<open>res.status(status).json({ error:
  { message } })\<close>; \<open>Failed e\<close> is an exception, which the handler passes to
  \<open>next(err)\<close> (the global error handler answers 500); \<open>Resolved account mode\<close> goes on
  to the token and the upstream call.
\<close>

datatype resolution = Reply nat string | Failed js_error | Resolved account string

definition chat_completions_account :: "string \<Rightarrow> store \<Rightarrow> request \<Rightarrow> resolution" where
  "chat_completions_account API_BEARER_TOKEN s req =
     (if \<not> requireGatewayToken API_BEARER_TOKEN req then Reply 401 ''Invalid gateway token''
      else (case normalizeMode (body_model req) of
              Inl e \<Rightarrow> Failed e
            | Inr mode \<Rightarrow>
               (case getUserContext req of
                  None \<Rightarrow> Reply 401 ''No user context. Use X-User-Key.''
                | Some ctx \<Rightarrow>
                    (case (case ctx of
                             Session a \<Rightarrow> Some a
                           | UserKey k \<Rightarrow> getAccountByUserKey s k) of
                       None \<Rightarrow> Reply 401 ''Invalid X-User-Key or expired.''
                     | Some a \<Rightarrow> Resolved a mode))))"

section \<open>Token acquisition\<close>

text \<open>
  The MSAL client, by what \<open>acquireAccessToken\<close> uses of it, over a type \<open>'c\<close> of
  in-memory token caches: \<open>getTokenCache().deserialize(blob)\<close>,
  \<open>getTokenCache().serialize()\<close>, and \<open>acquireTokenSilent\<close>, which rejects with a
  message or gives the access token and leaves the cache as it made it.
\<close>

record 'c msal_client =
  deserialize :: "string \<Rightarrow> 'c \<Rightarrow> 'c"
  serialize :: "'c \<Rightarrow> string"
  acquireTokenSilent :: "'c \<Rightarrow> account \<Rightarrow> string + (string \<times> 'c)"

text \<open>
  \<^verbatim>\<open>
  async function acquireAccessToken({ account, requestId }) {
    const cached = await loadMsalCache(account.homeAccountId);
    if (cached) msal.getTokenCache().deserialize(cached);
    const t0 = Date.now();
    const result = await msal.acquireTokenSilent({ account, scopes: SCOPES });
    await saveMsalCache(account.homeAccountId, msal.getTokenCache().serialize());
    log("debug", "msal.acquireTokenSilent", { requestId, ms: Date.now() - t0 });
    return result.accessToken;
  }
  \<close>
  on the store and the client's cache; \<open>Inl\<close> is the rejection, passed on to the
  caller.
\<close>

definition acquireAccessToken ::
  "'c msal_client \<Rightarrow> account \<Rightarrow> store \<times> 'c \<Rightarrow> (string + string) \<times> store \<times> 'c" where
  "acquireAccessToken client account state =
     (let (s, tc) = state;
          cached = loadMsalCache s (homeAccountId account);
          tc1 = (case cached of
                   None \<Rightarrow> tc
                 | Some blob \<Rightarrow> if blob \<noteq> [] then deserialize client blob tc else tc)
      in case acquireTokenSilent client tc1 account of
           Inl err \<Rightarrow> (Inl err, s, tc1)
         | Inr (accessToken, tc2) \<Rightarrow>
             (Inr accessToken,
              saveMsalCache s (homeAccountId account) (serialize client tc2),
              tc2))"

section \<open>The device flow\<close>

text \<open>What the identity provider hands to \<open>deviceCodeCallback\<close>.\<close>

record device_code_response =
  userCode :: string
  verificationUri :: string
  response_message :: string
  expiresIn :: nat
  response_interval :: nat

text \<open>
  The callback of \<open>POST /auth/device/start\<close> (lines 462 to 476): it stores the pending
  transaction, and \<open>deviceInfo\<close> is what the start request answers.
\<close>

definition deviceInfo :: "string \<Rightarrow> nat \<Rightarrow> device_code_response \<Rightarrow> device_tx" where
  "deviceInfo tx created response =
     \<lparr>txId = tx, status = Some ''pending'', createdAt = Some created,
      user_code = Some (userCode response),
      verification_uri = Some (verificationUri response),
      message = Some (response_message response),
      expires_in = Some (expiresIn response),
      interval = Some (response_interval response),
      user_key = None, completedAt = None, error = None\<rparr>"

definition deviceCodeCallback :: "string \<Rightarrow> nat \<Rightarrow> device_code_response \<Rightarrow> store \<Rightarrow> store" where
  "deviceCodeCallback tx created response s =
     s\<lparr>devtx := (devtx s)(tx \<mapsto> deviceInfo tx created response)\<rparr>"

text \<open>\<open>(await redisGetJson(`devtx:${txId}`)) || { txId }\<close>.\<close>

definition current_tx :: "store \<Rightarrow> string \<Rightarrow> device_tx" where
  "current_tx s tx =
     (case devtx s tx of
        Some info \<Rightarrow> info
      | None \<Rightarrow>
          \<lparr>txId = tx, status = None, createdAt = None, user_code = None,
           verification_uri = None, message = None, expires_in = None, interval = None,
           user_key = None, completedAt = None, error = None\<rparr>)"

text \<open>
  How \<open>msal.acquireTokenByDeviceCode\<close> ends: with a result (its \<open>account\<close>, if any, and
  the serialized token cache of that moment), or with a rejection.
\<close>

datatype device_result = Issued "account option" string | Rejected string

text \<open>The \<open>catch\<close> branch of the continuation (lines 495 to 501).\<close>

definition device_flow_error :: "string \<Rightarrow> string \<Rightarrow> store \<Rightarrow> store" where
  "device_flow_error tx cause s =
     s\<lparr>devtx := (devtx s)(tx \<mapsto> (current_tx s tx)\<lparr>status := Some ''error'', error := Some cause\<rparr>)\<rparr>"

text \<open>
  The continuation after the provider ends the flow (lines 479 to 501), with the key
  \<open>base64url(crypto.randomBytes(24))\<close> and the time \<open>Date.now()\<close> as parameters.
\<close>

definition device_flow_finish ::
  "string \<Rightarrow> device_result \<Rightarrow> string \<Rightarrow> nat \<Rightarrow> store \<Rightarrow> store" where
  "device_flow_finish tx result userKey now s =
     (case result of
        Rejected cause \<Rightarrow> device_flow_error tx cause s
      | Issued None cache \<Rightarrow> device_flow_error tx ''No account in device code result'' s
      | Issued (Some account) cache \<Rightarrow>
          if homeAccountId account = []
          then device_flow_error tx ''No account in device code result'' s
          else (let s1 = saveMsalCache s (homeAccountId account) cache;
                    s2 = s1\<lparr>account_of := (account_of s1)(homeAccountId account \<mapsto> account)\<rparr>;
                    s3 = s2\<lparr>userkey := (userkey s2)(userKey \<mapsto> homeAccountId account)\<rparr>;
                    done = (current_tx s3 tx)
                             \<lparr>status := Some ''complete'', user_key := Some userKey,
                              completedAt := Some now\<rparr>
                in s3\<lparr>devtx := (devtx s3)(tx \<mapsto> done)\<rparr>))"

text \<open>
  \<^verbatim>\<open>
  app.get("/auth/device/status/:txId", async (req, res) => {
    const info = await redisGetJson(`devtx:${req.params.txId}`);
    if (!info) return res.status(404).json({ error: { message: "txId not found" } });
    res.json(info);
  });
  \<close>
\<close>

definition device_status :: "store \<Rightarrow> string \<Rightarrow> (nat \<times> string) + device_tx" where
  "device_status s tx =
     (case devtx s tx of
        None \<Rightarrow> Inl (404, ''txId not found'')
      | Some info \<Rightarrow> Inr info)"

section \<open>What a run of the loop is observed by\<close>

text \<open>
  The statements below speak of the texts the events of a stream report, of the values
  read before a failure, and of the deltas a response carries. \<open>block_text\<close> is the
  text lines 648 to 672 extract from a block: \<open>None\<close> when the block has no data line, an
  empty payload, a payload that does not parse, or a payload without text.
  \<open>stream_texts\<close> cuts a text into its complete blocks as the inner loop does and lists
  the texts of the blocks that have one.
\<close>

definition block_text :: "stream_env \<Rightarrow> string \<Rightarrow> string option" where
  "block_text env block =
     (if dataLines block = [] \<or> payload_of block = [] then None
      else (case JSON_parse env (payload_of block) of
              None \<Rightarrow> None
            | Some obj \<Rightarrow> extractBestTextFromEvent obj (prompt env)))"

function stream_texts :: "stream_env \<Rightarrow> string \<Rightarrow> string list" where
  "stream_texts env s =
     (case indexOf s [LF, LF] of
        None \<Rightarrow> []
      | Some idx \<Rightarrow>
          (case block_text env (take idx s) of None \<Rightarrow> [] | Some t \<Rightarrow> [t])
          @ stream_texts env (drop (idx + 2) s))"
  by pat_completeness auto
termination stream_texts
proof (relation "measure (\<lambda>(env, s). length s)")
  show "wf (measure (\<lambda>(env, s). length s))" by simp
next
  fix env :: stream_env and s :: string and idx
  assume "indexOf s [LF, LF] = Some idx"
  then have "idx + 2 \<le> length s"
    using indexOf_bound by fastforce
  then show "((env, drop (idx + 2) s), (env, s)) \<in> measure (\<lambda>(env, s). length s)"
    by simp
qed

fun values_before :: "read_result list \<Rightarrow> string list" where
  "values_before [] = []"
| "values_before (Value v # rs) = v # values_before rs"
| "values_before (Failure # rs) = []"

fun emitted_deltas :: "wire list \<Rightarrow> string list" where
  "emitted_deltas [] = []"
| "emitted_deltas (Data c # ws) =
     (case delta_content c of None \<Rightarrow> emitted_deltas ws | Some d \<Rightarrow> d # emitted_deltas ws)"
| "emitted_deltas (w # ws) = emitted_deltas ws"

fun is_delta :: "wire \<Rightarrow> bool" where
  "is_delta (Data c) = (finish_reason c = None \<and> delta_content c \<noteq> None)"
| "is_delta _ = False"


section \<open>A concrete upstream for the scenarios\<close>

text \<open>
  The payloads of the scenarios have the shape \<open>{"messages":[{"text":"..."}]}\<close> with a
  text free of quotes, backslashes and control characters, or are not JSON at all
  (\<open>{oops\<close>). \<open>scenario_parse\<close> is \<open>JSON.parse\<close> on these payloads.
\<close>

definition text_event :: "string \<Rightarrow> json" where
  "text_event t = JObj [(''messages'', JArr [JObj [(''text'', JStr t)]])]"

definition text_payload :: "string \<Rightarrow> string" where
  "text_payload t = ''{\"messages\":[{\"text\":\"'' @ t @ ''\"}]}''"

definition scenario_parse :: "string \<Rightarrow> json option" where
  "scenario_parse p =
     (let pre = ''{\"messages\":[{\"text\":\"'';
          suf = ''\"}]}'';
          mid = take (length p - length pre - length suf) (drop (length pre) p)
      in if length pre + length suf \<le> length p \<and> startsWith p pre
            \<and> drop (length p - length suf) p = suf
            \<and> list_all (\<lambda>c. c \<noteq> CHR 0x22 \<and> c \<noteq> CHR 0x5C \<and> 32 \<le> (of_char c :: nat)) mid
         then Some (text_event mid) else None)"

definition scenario_env :: stream_env where
  "scenario_env =
     \<lparr>requestId = ''req-1'', conversationId = ''conv-1'', model = JStr ''auto'',
      prompt = ''SYSTEM: hint'' @ [LF] @ ''USER: hello'' @ [LF] @ ''ASSISTANT:'',
      JSON_parse = scenario_parse, EMPTY_RESPONSE_HINT = True,
      hint_text = ''(no text from upstream)'', DEBUG_EVENT_LIMIT = Num 50\<rparr>"

definition scenario_reads :: "read_result list" where
  "scenario_reads =
     [Value (''data: '' @ text_payload ''Hi'' @ [LF, LF] @ ''data: {oops'' @ [LF]),
      Value ([LF] @ ''data: '' @ text_payload ''Hi there'' @ [LF, LF]
             @ '': keep-alive'' @ [LF, LF] @ ''data: '' @ text_payload ''Hi there!'' @ [LF]),
      Value [LF]]"

text \<open>Two accounts, a store that knows one caller key, and a device-code response.\<close>

definition alice :: account where
  "alice = \<lparr>homeAccountId = ''home-alice'', username = ''alice@example.org''\<rparr>"

definition bob :: account where
  "bob = \<lparr>homeAccountId = ''home-bob'', username = ''bob@example.org''\<rparr>"

definition empty_store :: store where
  "empty_store = \<lparr>userkey = Map.empty, account_of = Map.empty, msal = Map.empty, devtx = Map.empty\<rparr>"

definition alice_store :: store where
  "alice_store =
     empty_store\<lparr>userkey := [''key-alice-0123456789'' \<mapsto> ''home-alice''],
                 account_of := [''home-alice'' \<mapsto> alice],
                 msal := [''home-alice'' \<mapsto> ''blob'']\<rparr>"

text \<open>
  A client whose cache is a string: deserializing replaces it, serializing reads it, and
  a silent acquisition rotates it.
\<close>

definition rotating_client :: "string msal_client" where
  "rotating_client =
     \<lparr>deserialize = (\<lambda>blob tc. blob), serialize = (\<lambda>tc. tc),
      acquireTokenSilent = (\<lambda>tc a. if tc = [] then Inl ''no_tokens_found''
                                     else Inr (''token-for-'' @ homeAccountId a, tc @ ''+''))\<rparr>"

definition sample_response :: device_code_response where
  "sample_response =
     \<lparr>userCode = ''ABCD-EFGH'', verificationUri = ''https://microsoft.com/devicelogin'',
      response_message = ''To sign in, open the page and enter the code.'',
      expiresIn = 900, response_interval = 5\<rparr>"

section \<open>Properties of normalizeMode\<close>

lemma toLowerCase_auto: "toLowerCase ''auto'' = ''auto''"
  by code_simp

text \<open>
  C10. Model-name normalization is total and closed over the three modes: for an absent
  model and for every string, \<open>normalizeMode\<close> returns (without raising) one of
  \<open>auto\<close>, \<open>fast\<close>, \<open>deep\<close>; a name whose lower case is \<open>gpt-5.2-fast\<close> or
  \<open>fast\<close> gives \<open>fast\<close>, one whose lower case is \<open>gpt-5.2-deep\<close> or \<open>deep\<close> gives
  \<open>deep\<close>, and every other name gives \<open>auto\<close>.
\<close>

theorem normalizeMode_closed:
  "normalizeMode None = Inr ''auto''
   \<and> normalizeMode (Some (JStr s)) \<in> {Inr ''auto'', Inr ''fast'', Inr ''deep''}
   \<and> normalizeMode (Some (JStr s)) =
       Inr (if toLowerCase s = ''gpt-5.2-fast'' \<or> toLowerCase s = ''fast'' then ''fast''
            else if toLowerCase s = ''gpt-5.2-deep'' \<or> toLowerCase s = ''deep'' then ''deep''
            else ''auto'')"
proof -
  have absent: "normalizeMode None = Inr ''auto''"
    by (simp add: normalizeMode_def toLowerCase_auto)
  have str: "normalizeMode (Some (JStr s)) =
       Inr (if toLowerCase s = ''gpt-5.2-fast'' \<or> toLowerCase s = ''fast'' then ''fast''
            else if toLowerCase s = ''gpt-5.2-deep'' \<or> toLowerCase s = ''deep'' then ''deep''
            else ''auto'')"
  proof (cases "s = []")
    case True
    then show ?thesis
      by (simp add: normalizeMode_def toLowerCase_auto) (simp add: toLowerCase_def)
  next
    case False
    then show ?thesis
      by (simp add: normalizeMode_def Let_def)
  qed
  have closed: "normalizeMode (Some (JStr s)) \<in> {Inr ''auto'', Inr ''fast'', Inr ''deep''}"
    unfolding str by simp
  from absent closed str show ?thesis by blast
qed

theorem normalizeMode_closed_witness:
  "normalizeMode (Some (JStr ''GPT-5.2-Fast'')) = Inr ''fast''
   \<and> normalizeMode (Some (JStr ''gpt-5.2-DEEP'')) = Inr ''deep''
   \<and> normalizeMode (Some (JStr ''gpt-4o'')) = Inr ''auto''"
proof -
  have l1: "toLowerCase ''GPT-5.2-Fast'' = ''gpt-5.2-fast''" by code_simp
  have l2: "toLowerCase ''gpt-5.2-DEEP'' = ''gpt-5.2-deep''" by code_simp
  have l3: "toLowerCase ''gpt-4o'' = ''gpt-4o''" by code_simp
  show ?thesis
    using normalizeMode_closed [of "''GPT-5.2-Fast''"]
      normalizeMode_closed [of "''gpt-5.2-DEEP''"]
      normalizeMode_closed [of "''gpt-4o''"]
    by (simp add: l1 l2 l3)
qed

section \<open>The loop depends on the concatenated reads only\<close>

declare extract_blocks.simps [simp del]
declare stream_texts.simps [simp del]

lemma indexOf_append: "indexOf c p = Some i \<Longrightarrow> indexOf (c @ d) p = Some i"
proof (induction c arbitrary: i)
  case Nil
  then show ?case by (cases d) (auto simp: startsWith_def split: if_splits)
next
  case (Cons x xs)
  show ?case
  proof (cases "startsWith (x # xs) p")
    case True
    then have "length (take (length p) (x # xs)) = length p"
      unfolding startsWith_def by simp
    then have "length p \<le> length (x # xs)"
      unfolding length_take by linarith
    then have "take (length p) ((x # xs) @ d) = take (length p) (x # xs)"
      by (simp only: take_append) simp
    with True have "startsWith ((x # xs) @ d) p"
      unfolding startsWith_def by (simp only:)
    with True Cons.prems show ?thesis by simp
  next
    case False
    with Cons.prems obtain j where j: "indexOf xs p = Some j" "i = Suc j" by auto
    from indexOf_bound [OF j(1)] have len: "length p \<le> length xs" by simp
    have "\<not> startsWith ((x # xs) @ d) p"
    proof
      assume "startsWith ((x # xs) @ d) p"
      then have "take (length p) ((x # xs) @ d) = p" by (simp add: startsWith_def)
      moreover have "take (length p) ((x # xs) @ d) = take (length p) (x # xs)"
        using len by (simp only: take_append) simp
      ultimately show False using False by (simp add: startsWith_def)
    qed
    with Cons.IH [OF j(1)] j show ?thesis by simp
  qed
qed

lemma process_block_carry_update:
  "process_block env b (st\<lparr>carry := c\<rparr>) = (process_block env b st)\<lparr>carry := c\<rparr>"
  by (simp add: process_block_def Let_def watermark_def sendDelta_def split: option.splits)

lemma extract_blocks_append:
  "extract_blocks env (st\<lparr>carry := carry st @ d\<rparr>) =
   extract_blocks env ((extract_blocks env st)\<lparr>carry := carry (extract_blocks env st) @ d\<rparr>)"
proof (induction env st rule: extract_blocks.induct)
  case (1 env st)
  show ?case
  proof (cases "indexOf (carry st) [LF, LF]")
    case None
    then have "extract_blocks env st = st"
      by (simp add: extract_blocks.simps [of env st])
    then show ?thesis by simp
  next
    case (Some idx)
    let ?b = "take idx (carry st)"
    let ?st' = "process_block env ?b (st\<lparr>carry := drop (idx + 2) (carry st)\<rparr>)"
    from indexOf_bound [OF Some] have len: "idx + 2 \<le> length (carry st)" by simp
    have c': "carry ?st' = drop (idx + 2) (carry st)"
      by (simp add: process_block_carry)
    have unfold: "extract_blocks env st = extract_blocks env ?st'"
      using Some by (simp add: extract_blocks.simps [of env st])
    have "extract_blocks env (st\<lparr>carry := carry st @ d\<rparr>) =
          extract_blocks env (process_block env ?b (st\<lparr>carry := drop (idx + 2) (carry st) @ d\<rparr>))"
      using indexOf_append [OF Some, of d] len
      by (simp add: extract_blocks.simps [of env "st\<lparr>carry := carry st @ d\<rparr>"])
    also have "process_block env ?b (st\<lparr>carry := drop (idx + 2) (carry st) @ d\<rparr>) =
          ?st'\<lparr>carry := carry ?st' @ d\<rparr>"
      by (simp add: c' process_block_carry_update)
    also have "extract_blocks env (?st'\<lparr>carry := carry ?st' @ d\<rparr>) =
          extract_blocks env ((extract_blocks env ?st')\<lparr>carry := carry (extract_blocks env ?st') @ d\<rparr>)"
      using "1.IH" [OF Some] .
    finally show ?thesis by (simp add: unfold)
  qed
qed

lemma extract_blocks_done: "indexOf (carry (extract_blocks env st)) [LF, LF] = None"
proof (induction env st rule: extract_blocks.induct)
  case (1 env st)
  show ?case
  proof (cases "indexOf (carry st) [LF, LF]")
    case None
    then show ?thesis by (simp add: extract_blocks.simps [of env st])
  next
    case (Some idx)
    with "1.IH" [OF Some] show ?thesis by (simp add: extract_blocks.simps [of env st])
  qed
qed

lemma read_loop_values:
  "indexOf (carry st) [LF, LF] = None \<Longrightarrow>
   read_loop env (map Value vs) st = extract_blocks env (st\<lparr>carry := carry st @ concat vs\<rparr>)"
proof (induction vs arbitrary: st)
  case Nil
  then show ?case by (simp add: extract_blocks.simps [of env st])
next
  case (Cons v vs)
  let ?st1 = "extract_blocks env (st\<lparr>carry := carry st @ v\<rparr>)"
  have "read_loop env (map Value (v # vs)) st = read_loop env (map Value vs) ?st1" by simp
  also have "\<dots> = extract_blocks env (?st1\<lparr>carry := carry ?st1 @ concat vs\<rparr>)"
    by (rule Cons.IH) (rule extract_blocks_done)
  also have "\<dots> = extract_blocks env
      ((st\<lparr>carry := carry st @ v\<rparr>)\<lparr>carry := carry (st\<lparr>carry := carry st @ v\<rparr>) @ concat vs\<rparr>)"
    by (rule extract_blocks_append [symmetric])
  also have "(st\<lparr>carry := carry st @ v\<rparr>)\<lparr>carry := carry (st\<lparr>carry := carry st @ v\<rparr>) @ concat vs\<rparr>
      = st\<lparr>carry := carry st @ concat (v # vs)\<rparr>"
    by simp
  finally show ?case .
qed

lemma read_loop_values_before:
  "read_loop env reads st = read_loop env (map Value (values_before reads)) st"
  by (induction env reads st rule: read_loop.induct) simp_all


text \<open>
  The watermark reads and changes \<open>fullText\<close> and \<open>written\<close> only, so what a run writes
  is what feeding the texts of its events to the watermark writes.
\<close>

lemma watermark_cong:
  "fullText s1 = fullText s2 \<Longrightarrow> written s1 = written s2 \<Longrightarrow>
   fullText (watermark env t s1) = fullText (watermark env t s2)
   \<and> written (watermark env t s1) = written (watermark env t s2)"
  by (simp add: watermark_def Let_def sendDelta_def split: option.splits)

lemma feed_cong:
  "fullText s1 = fullText s2 \<Longrightarrow> written s1 = written s2 \<Longrightarrow>
   fullText (foldl (\<lambda>s t. watermark env (Some t) s) s1 ts)
     = fullText (foldl (\<lambda>s t. watermark env (Some t) s) s2 ts)
   \<and> written (foldl (\<lambda>s t. watermark env (Some t) s) s1 ts)
     = written (foldl (\<lambda>s t. watermark env (Some t) s) s2 ts)"
proof (induction ts arbitrary: s1 s2)
  case Nil
  then show ?case by simp
next
  case (Cons t ts)
  from watermark_cong [OF Cons.prems, of env "Some t"]
  have "fullText (watermark env (Some t) s1) = fullText (watermark env (Some t) s2)"
    and "written (watermark env (Some t) s1) = written (watermark env (Some t) s2)"
    by simp_all
  from Cons.IH [OF this] show ?case by simp
qed

lemma process_block_view:
  "fullText (process_block env b st) = fullText (watermark env (block_text env b) st)
   \<and> written (process_block env b st) = written (watermark env (block_text env b) st)"
proof -
  have none: "watermark env None st = st" by (simp add: watermark_def)
  show ?thesis
  proof (cases "dataLines b = [] \<or> payload_of b = []")
    case True
    then show ?thesis
      by (auto simp: process_block_def block_text_def none Let_def)
  next
    case False
    show ?thesis
    proof (cases "JSON_parse env (payload_of b)")
      case None
      with False show ?thesis
        by (simp add: process_block_def block_text_def none Let_def)
    next
      case (Some obj)
      with False show ?thesis
        using watermark_cong [of
            "st\<lparr>blocks := blocks st + 1, debug_last_events :=
               pushDebugEvent (DEBUG_EVENT_LIMIT env) (debug_last_events st)
                 \<lparr>ev_requestId = requestId env, ev_conversationId = conversationId env,
                  sample = take 400 (payload_of b)\<rparr>\<rparr>"
            st env "extractBestTextFromEvent obj (prompt env)"]
        by (simp add: process_block_def block_text_def Let_def)
    qed
  qed
qed

lemma extract_blocks_view:
  "fullText (extract_blocks env st)
     = fullText (foldl (\<lambda>s t. watermark env (Some t) s) st (stream_texts env (carry st)))
   \<and> written (extract_blocks env st)
     = written (foldl (\<lambda>s t. watermark env (Some t) s) st (stream_texts env (carry st)))"
proof (induction env st rule: extract_blocks.induct)
  case (1 env st)
  show ?case
  proof (cases "indexOf (carry st) [LF, LF]")
    case None
    then show ?thesis
      by (simp add: extract_blocks.simps [of env st] stream_texts.simps [of env "carry st"])
  next
    case (Some idx)
    let ?b = "take idx (carry st)"
    let ?rest = "drop (idx + 2) (carry st)"
    let ?st' = "process_block env ?b (st\<lparr>carry := ?rest\<rparr>)"
    let ?feed = "foldl (\<lambda>s t. watermark env (Some t) s)"
    have unfold: "extract_blocks env st = extract_blocks env ?st'"
      using Some by (simp add: extract_blocks.simps [of env st])
    have c': "carry ?st' = ?rest" by (simp add: process_block_carry)
    have texts: "stream_texts env (carry st) =
        (case block_text env ?b of None \<Rightarrow> [] | Some t \<Rightarrow> [t]) @ stream_texts env ?rest"
      using Some by (simp add: stream_texts.simps [of env "carry st"])
    have head: "fullText ?st' = fullText (?feed st (case block_text env ?b of None \<Rightarrow> [] | Some t \<Rightarrow> [t]))
        \<and> written ?st' = written (?feed st (case block_text env ?b of None \<Rightarrow> [] | Some t \<Rightarrow> [t]))"
    proof (cases "block_text env ?b")
      case None
      with process_block_view [of env ?b "st\<lparr>carry := ?rest\<rparr>"]
      show ?thesis by (simp add: watermark_def)
    next
      case (Some t)
      with process_block_view [of env ?b "st\<lparr>carry := ?rest\<rparr>"]
        watermark_cong [of "st\<lparr>carry := ?rest\<rparr>" st env "Some t"]
      show ?thesis by simp
    qed
    from "1.IH" [OF Some] c'
    have ih: "fullText (extract_blocks env ?st') = fullText (?feed ?st' (stream_texts env ?rest))
        \<and> written (extract_blocks env ?st') = written (?feed ?st' (stream_texts env ?rest))"
      by simp
    from head have h1: "fullText ?st' = fullText (?feed st (case block_text env ?b of None \<Rightarrow> [] | Some t \<Rightarrow> [t]))"
      and h2: "written ?st' = written (?feed st (case block_text env ?b of None \<Rightarrow> [] | Some t \<Rightarrow> [t]))"
      by simp_all
    from feed_cong [OF h1 h2, of env "stream_texts env ?rest"] ih
    show ?thesis
      by (simp only: unfold texts foldl_append)
  qed
qed

lemma read_loop_view:
  "fullText (read_loop env reads (initial_state events))
     = fullText (foldl (\<lambda>s t. watermark env (Some t) s) (initial_state events)
          (stream_texts env (concat (values_before reads))))
   \<and> written (read_loop env reads (initial_state events))
     = written (foldl (\<lambda>s t. watermark env (Some t) s) (initial_state events)
          (stream_texts env (concat (values_before reads))))"
proof -
  let ?s0 = "initial_state events"
  let ?text = "concat (values_before reads)"
  have start: "indexOf (carry ?s0) [LF, LF] = None" by (simp add: initial_state_def)
  have "read_loop env reads ?s0 = read_loop env (map Value (values_before reads)) ?s0"
    by (rule read_loop_values_before)
  also have "\<dots> = extract_blocks env (?s0\<lparr>carry := carry ?s0 @ ?text\<rparr>)"
    using start by (rule read_loop_values)
  also have "carry ?s0 @ ?text = ?text" by (simp add: initial_state_def)
  finally have eq: "read_loop env reads ?s0 = extract_blocks env (?s0\<lparr>carry := ?text\<rparr>)" .
  have cong: "fullText (?s0\<lparr>carry := ?text\<rparr>) = fullText ?s0" "written (?s0\<lparr>carry := ?text\<rparr>) = written ?s0"
    by simp_all
  from extract_blocks_view [of env "?s0\<lparr>carry := ?text\<rparr>"] feed_cong [OF cong]
  show ?thesis by (simp add: eq)
qed

section \<open>The scenario of three cumulative texts\<close>

lemma feed_three:
  "written (foldl (\<lambda>s t. watermark env (Some t) s) (initial_state events)
      [''Hi'', ''Hi there'', ''Hi there!''])
   = [Data (delta_chunk env ''Hi''), Data (delta_chunk env '' there''), Data (delta_chunk env ''!'')]
   \<and> fullText (foldl (\<lambda>s t. watermark env (Some t) s) (initial_state events)
      [''Hi'', ''Hi there'', ''Hi there!'']) = ''Hi there!''"
  by (simp add: watermark_def sendDelta_def initial_state_def Let_def)

text \<open>
  C1. When the events of the upstream stream (the reads up to the end or the first
  failure, in any division into chunks) report the texts \<open>Hi\<close>, \<open>Hi there\<close>,
  \<open>Hi there!\<close>, the response is exactly the delta chunks \<open>Hi\<close>, \<open> there\<close>, \<open>!\<close>,
  one chunk with \<open>finish_reason\<close> \<open>stop\<close>, the marker \<open>data: [DONE]\<close> and the end of
  the response.
\<close>

theorem stream_hi_there:
  assumes "stream_texts env (concat (values_before reads)) = [''Hi'', ''Hi there'', ''Hi there!'']"
  shows "written (stream_response env reads events) =
           [Data \<lparr>chunk_id = ''chatcmpl_'' @ conversationId env,
                  chunk_object = ''chat.completion.chunk'', chunk_model = model env,
                  delta_content = Some ''Hi'', finish_reason = None\<rparr>,
            Data \<lparr>chunk_id = ''chatcmpl_'' @ conversationId env,
                  chunk_object = ''chat.completion.chunk'', chunk_model = model env,
                  delta_content = Some '' there'', finish_reason = None\<rparr>,
            Data \<lparr>chunk_id = ''chatcmpl_'' @ conversationId env,
                  chunk_object = ''chat.completion.chunk'', chunk_model = model env,
                  delta_content = Some ''!'', finish_reason = None\<rparr>,
            Data \<lparr>chunk_id = ''chatcmpl_'' @ conversationId env,
                  chunk_object = ''chat.completion.chunk'', chunk_model = model env,
                  delta_content = None, finish_reason = Some ''stop''\<rparr>,
            Raw (''data: [DONE]'' @ [LF, LF]), End]
       \<and> written (stream_response env reads events) =
           [Data (delta_chunk env ''Hi''), Data (delta_chunk env '' there''),
            Data (delta_chunk env ''!''), Data (stop_chunk env),
            Raw (''data: [DONE]'' @ [LF, LF]), End]
       \<and> emitted_deltas (written (stream_response env reads events)) = [''Hi'', '' there'', ''!'']
       \<and> finish_reason (stop_chunk env) = Some ''stop''"
proof -
  let ?st = "read_loop env reads (initial_state events)"
  from read_loop_view [of env reads events] feed_three [of env events] assms
  have w: "written ?st = [Data (delta_chunk env ''Hi''), Data (delta_chunk env '' there''),
            Data (delta_chunk env ''!'')]"
    and f: "fullText ?st = ''Hi there!''"
    by simp_all
  from f have "hint_if_empty env ?st = ?st"
    by (simp add: hint_if_empty_def)
  with w have all: "written (stream_response env reads events) =
           [Data (delta_chunk env ''Hi''), Data (delta_chunk env '' there''),
            Data (delta_chunk env ''!''), Data (stop_chunk env),
            Raw (''data: [DONE]'' @ [LF, LF]), End]"
    by (simp add: stream_response_def sendStop_def)
  show ?thesis
    unfolding all by (simp add: delta_chunk_def stop_chunk_def)
qed

theorem stream_hi_there_witness:
  "stream_texts scenario_env (concat (values_before scenario_reads))
     = [''Hi'', ''Hi there'', ''Hi there!'']
   \<and> written (stream_response scenario_env scenario_reads []) =
       [Data \<lparr>chunk_id = ''chatcmpl_conv-1'', chunk_object = ''chat.completion.chunk'',
              chunk_model = JStr ''auto'', delta_content = Some ''Hi'', finish_reason = None\<rparr>,
        Data \<lparr>chunk_id = ''chatcmpl_conv-1'', chunk_object = ''chat.completion.chunk'',
              chunk_model = JStr ''auto'', delta_content = Some '' there'', finish_reason = None\<rparr>,
        Data \<lparr>chunk_id = ''chatcmpl_conv-1'', chunk_object = ''chat.completion.chunk'',
              chunk_model = JStr ''auto'', delta_content = Some ''!'', finish_reason = None\<rparr>,
        Data \<lparr>chunk_id = ''chatcmpl_conv-1'', chunk_object = ''chat.completion.chunk'',
              chunk_model = JStr ''auto'', delta_content = None, finish_reason = Some ''stop''\<rparr>,
        Raw (''data: [DONE]'' @ [LF, LF]), End]
   \<and> emitted_deltas (written (stream_response scenario_env scenario_reads []))
       = [''Hi'', '' there'', ''!'']"
proof -
  have texts: "stream_texts scenario_env (concat (values_before scenario_reads))
     = [''Hi'', ''Hi there'', ''Hi there!'']"
    by code_simp
  from stream_hi_there [OF texts, of "[]"] texts show ?thesis
    by (simp add: scenario_env_def)
qed

section \<open>The watermark\<close>

lemma emitted_deltas_append:
  "emitted_deltas (xs @ ys) = emitted_deltas xs @ emitted_deltas ys"
  by (induction xs rule: emitted_deltas.induct) (simp_all split: option.splits)

lemma watermark_same: "watermark env (Some (fullText st)) st = st"
  by (simp add: watermark_def)

lemma watermark_longer:
  "length (fullText st) < length t \<Longrightarrow>
   watermark env (Some t) st =
     st\<lparr>fullText := t,
        written := written st @ [Data (delta_chunk env (drop (length (fullText st)) t))]\<rparr>"
  by (simp add: watermark_def sendDelta_def Let_def)

lemma watermark_not_longer:
  "length t \<le> length (fullText st) \<Longrightarrow> watermark env (Some t) st = st"
  by (simp add: watermark_def)

lemma watermark_twice:
  "watermark env t (watermark env t st) = watermark env t st"
proof (cases t)
  case None
  then show ?thesis by (simp add: watermark_def)
next
  case (Some s)
  show ?thesis
  proof (cases "length (fullText st) < length s")
    case True
    then have "fullText (watermark env (Some s) st) = s"
      by (simp add: watermark_longer)
    then show ?thesis
      using watermark_same [of env "watermark env (Some s) st"] Some by simp
  next
    case False
    then have "watermark env (Some s) st = st"
      by (simp add: watermark_not_longer)
    with Some show ?thesis by simp
  qed
qed

text \<open>
  C2. The watermark is idempotent under a duplicate event. In every state, a block whose
  event reports exactly the current watermark text writes nothing and leaves the
  watermark as it is (an update with the current text is the identity); and processing
  any block a second time right after the first writes nothing more and leaves the
  watermark where the first left it, so a replayed event gives a delta at most once.
\<close>

theorem watermark_idempotent:
  "(block_text env b = Some (fullText st) \<longrightarrow>
      written (process_block env b st) = written st
      \<and> fullText (process_block env b st) = fullText st)
   \<and> watermark env (Some (fullText st)) st = st
   \<and> written (process_block env b (process_block env b st)) = written (process_block env b st)
   \<and> fullText (process_block env b (process_block env b st)) = fullText (process_block env b st)"
proof -
  let ?st1 = "process_block env b st"
  have first: "block_text env b = Some (fullText st) \<Longrightarrow>
      written ?st1 = written st \<and> fullText ?st1 = fullText st"
    using process_block_view [of env b st] by (simp add: watermark_same)
  have v1: "fullText ?st1 = fullText (watermark env (block_text env b) st)"
    and w1: "written ?st1 = written (watermark env (block_text env b) st)"
    using process_block_view [of env b st] by simp_all
  from watermark_cong [OF v1 w1, of env "block_text env b"] process_block_view [of env b ?st1]
  have "fullText (process_block env b ?st1) = fullText ?st1
      \<and> written (process_block env b ?st1) = written ?st1"
    by (simp add: watermark_twice v1 w1)
  with first watermark_same show ?thesis by blast
qed

theorem watermark_idempotent_witness:
  "block_text scenario_env (''data: '' @ text_payload ''Hi'')
      = Some (fullText ((initial_state [])\<lparr>fullText := ''Hi''\<rparr>))
   \<and> written (process_block scenario_env (''data: '' @ text_payload ''Hi'')
        ((initial_state [])\<lparr>fullText := ''Hi''\<rparr>)) = []
   \<and> fullText (process_block scenario_env (''data: '' @ text_payload ''Hi'')
        ((initial_state [])\<lparr>fullText := ''Hi''\<rparr>)) = ''Hi''"
proof -
  have bt: "block_text scenario_env (''data: '' @ text_payload ''Hi'')
      = Some (fullText ((initial_state [])\<lparr>fullText := ''Hi''\<rparr>))"
    by code_simp
  from watermark_idempotent [of scenario_env "''data: '' @ text_payload ''Hi''"
      "(initial_state [])\<lparr>fullText := ''Hi''\<rparr>"] bt
  show ?thesis by (simp add: initial_state_def)
qed

lemma prefix_drop_chain:
  "prefix w t \<Longrightarrow> prefix t l \<Longrightarrow> drop (length w) t @ drop (length t) l = drop (length w) l"
  by (auto simp: prefix_def)

lemma feed_cumulative:
  "successively prefix ts \<Longrightarrow> (ts \<noteq> [] \<Longrightarrow> prefix (fullText st) (hd ts)) \<Longrightarrow>
   fullText (foldl (\<lambda>s t. watermark env (Some t) s) st ts) = (if ts = [] then fullText st else last ts)
   \<and> concat (emitted_deltas (written (foldl (\<lambda>s t. watermark env (Some t) s) st ts)))
       = concat (emitted_deltas (written st))
         @ drop (length (fullText st)) (if ts = [] then fullText st else last ts)"
proof (induction ts arbitrary: st)
  case Nil
  then show ?case by simp
next
  case (Cons t ts)
  let ?st1 = "watermark env (Some t) st"
  from Cons.prems(2) have pre: "prefix (fullText st) t" by simp
  have f1: "fullText ?st1 = t"
  proof (cases "length (fullText st) < length t")
    case True
    then show ?thesis by (simp add: watermark_longer)
  next
    case False
    with pre have "t = fullText st"
      by (auto simp: prefix_def)
    then show ?thesis by (simp add: watermark_same)
  qed
  have d1: "concat (emitted_deltas (written ?st1))
      = concat (emitted_deltas (written st)) @ drop (length (fullText st)) t"
  proof (cases "length (fullText st) < length t")
    case True
    then show ?thesis
      by (simp add: watermark_longer emitted_deltas_append delta_chunk_def)
  next
    case False
    with pre have "t = fullText st"
      by (auto simp: prefix_def)
    then show ?thesis using watermark_same [of env st] by simp
  qed
  from Cons.prems(1) have succ: "successively prefix ts"
    and nxt: "ts \<noteq> [] \<Longrightarrow> prefix t (hd ts)"
    by (auto simp: successively_Cons)
  from nxt f1 have nxt': "ts \<noteq> [] \<Longrightarrow> prefix (fullText ?st1) (hd ts)" by simp
  note ih = Cons.IH [OF succ nxt']
  show ?case
  proof (cases "ts = []")
    case True
    with f1 d1 show ?thesis by simp
  next
    case False
    from succ nxt [OF False] have "prefix t (last ts)"
      using False
    proof (induction ts arbitrary: t)
      case Nil
      then show ?case by simp
    next
      case (Cons a as)
      then show ?case
        by (cases "as = []") (auto simp: successively_Cons intro: prefix_order.trans)
    qed
    with pre have "drop (length (fullText st)) t @ drop (length t) (last ts)
        = drop (length (fullText st)) (last ts)"
      by (rule prefix_drop_chain)
    with ih False f1 d1 show ?thesis by simp
  qed
qed

text \<open>
  C3, as amended. When each text the events of the stream report is a prefix of the
  next one, the concatenation of the deltas the loop writes is the final watermark, and
  that is the last text reported (the empty text when no event reported one). Texts
  that only grow in length are not enough: the loop compares lengths and cuts the new
  text at the length of the old one.
\<close>

theorem deltas_concat_cumulative:
  assumes "successively prefix (stream_texts env (concat (values_before reads)))"
  shows "concat (emitted_deltas (written (read_loop env reads (initial_state events))))
           = fullText (read_loop env reads (initial_state events))
         \<and> fullText (read_loop env reads (initial_state events))
           = (if stream_texts env (concat (values_before reads)) = [] then []
              else last (stream_texts env (concat (values_before reads))))"
proof -
  let ?ts = "stream_texts env (concat (values_before reads))"
  have "ts \<noteq> [] \<Longrightarrow> prefix (fullText (initial_state events)) (hd ts)" for ts :: "string list"
    by (simp add: initial_state_def)
  from feed_cumulative [OF assms this, of env] read_loop_view [of env reads events]
  show ?thesis by (simp add: initial_state_def)
qed

theorem deltas_concat_cumulative_witness:
  "successively prefix (stream_texts scenario_env (concat (values_before scenario_reads)))
   \<and> concat (emitted_deltas (written (read_loop scenario_env scenario_reads (initial_state []))))
       = ''Hi there!''
   \<and> fullText (read_loop scenario_env scenario_reads (initial_state [])) = ''Hi there!''"
proof -
  have texts: "stream_texts scenario_env (concat (values_before scenario_reads))
     = [''Hi'', ''Hi there'', ''Hi there!'']"
    by code_simp
  have chain: "successively prefix (stream_texts scenario_env (concat (values_before scenario_reads)))"
    unfolding texts by simp
  from deltas_concat_cumulative [OF chain, of "[]"] chain show ?thesis
    by (simp add: texts)
qed

text \<open>
  The texts \<open>ab\<close> and \<open>xyz\<close> do not decrease in length; the loop writes the deltas
  \<open>ab\<close> and \<open>z\<close>, and the final text is \<open>xyz\<close>.
\<close>

theorem deltas_concat_length_only_counterexample:
  "stream_texts scenario_env
      (''data: '' @ text_payload ''ab'' @ [LF, LF] @ ''data: '' @ text_payload ''xyz'' @ [LF, LF])
     = [''ab'', ''xyz'']
   \<and> sorted (map length [''ab'', ''xyz''])
   \<and> emitted_deltas (written (read_loop scenario_env
        [Value (''data: '' @ text_payload ''ab'' @ [LF, LF] @ ''data: '' @ text_payload ''xyz'' @ [LF, LF])]
        (initial_state []))) = [''ab'', ''z'']
   \<and> fullText (read_loop scenario_env
        [Value (''data: '' @ text_payload ''ab'' @ [LF, LF] @ ''data: '' @ text_payload ''xyz'' @ [LF, LF])]
        (initial_state [])) = ''xyz''
   \<and> concat [''ab'', ''z''] \<noteq> ''xyz''"
  by code_simp

section \<open>Malformed blocks\<close>




section \<open>The end of every response\<close>

lemma watermark_is_delta:
  "list_all is_delta (written st) \<Longrightarrow> list_all is_delta (written (watermark env t st))"
  by (simp add: watermark_def sendDelta_def delta_chunk_def Let_def split: option.splits)

lemma feed_is_delta:
  "list_all is_delta (written st) \<Longrightarrow>
   list_all is_delta (written (foldl (\<lambda>s t. watermark env (Some t) s) st ts))"
  by (induction ts arbitrary: st) (simp_all add: watermark_is_delta)

text \<open>
  C5. Whatever the reads are, ending normally or failing at any point, the response is
  a sequence of delta chunks (none of them carries a \<open>finish_reason\<close>) followed by
  exactly one chunk with \<open>finish_reason\<close> \<open>stop\<close>, then the marker \<open>data: [DONE]\<close>, then
  the end of the response.
\<close>

theorem stream_always_terminated:
  "written (stream_response env reads events) =
     written (hint_if_empty env (read_loop env reads (initial_state events)))
     @ [Data \<lparr>chunk_id = ''chatcmpl_'' @ conversationId env,
               chunk_object = ''chat.completion.chunk'', chunk_model = model env,
               delta_content = None, finish_reason = Some ''stop''\<rparr>,
        Raw (''data: [DONE]'' @ [LF, LF]), End]
   \<and> written (stream_response env reads events) =
     written (hint_if_empty env (read_loop env reads (initial_state events)))
     @ [Data (stop_chunk env), Raw (''data: [DONE]'' @ [LF, LF]), End]
   \<and> finish_reason (stop_chunk env) = Some ''stop''
   \<and> list_all is_delta (written (hint_if_empty env (read_loop env reads (initial_state events))))
   \<and> list_all (\<lambda>w. \<exists>c. w = Data c \<and> finish_reason c = None)
        (written (hint_if_empty env (read_loop env reads (initial_state events))))"
proof -
  let ?st = "read_loop env reads (initial_state events)"
  have "list_all is_delta (written (initial_state events))"
    by (simp add: initial_state_def)
  then have "list_all is_delta (written ?st)"
    using read_loop_view [of env reads events] feed_is_delta by simp
  then have d: "list_all is_delta (written (hint_if_empty env ?st))"
    by (simp add: hint_if_empty_def sendDelta_def delta_chunk_def)
  have "is_delta w \<Longrightarrow> \<exists>c. w = Data c \<and> finish_reason c = None" for w
    by (cases w) simp_all
  with d have e: "list_all (\<lambda>w. \<exists>c. w = Data c \<and> finish_reason c = None)
      (written (hint_if_empty env ?st))"
    by (simp add: list_all_iff)
  have w: "written (stream_response env reads events) =
     written (hint_if_empty env ?st)
     @ [Data (stop_chunk env), Raw (''data: [DONE]'' @ [LF, LF]), End]"
    by (simp add: stream_response_def sendStop_def)
  have s: "stop_chunk env = \<lparr>chunk_id = ''chatcmpl_'' @ conversationId env,
               chunk_object = ''chat.completion.chunk'', chunk_model = model env,
               delta_content = None, finish_reason = Some ''stop''\<rparr>"
    by (simp add: stop_chunk_def)
  have f: "finish_reason (stop_chunk env) = Some ''stop''"
    by (simp add: stop_chunk_def)
  from w w [unfolded s] f d e show ?thesis by blast
qed

theorem stream_always_terminated_witness:
  "written (stream_response scenario_env
      [Value (''data: '' @ text_payload ''Hi'' @ [LF, LF] @ ''data: ''), Failure,
       Value (text_payload ''Hi there'' @ [LF, LF])] []) =
     [Data \<lparr>chunk_id = ''chatcmpl_conv-1'', chunk_object = ''chat.completion.chunk'',
            chunk_model = JStr ''auto'', delta_content = Some ''Hi'', finish_reason = None\<rparr>,
      Data \<lparr>chunk_id = ''chatcmpl_conv-1'', chunk_object = ''chat.completion.chunk'',
            chunk_model = JStr ''auto'', delta_content = None, finish_reason = Some ''stop''\<rparr>,
      Raw (''data: [DONE]'' @ [LF, LF]), End]
   \<and> written (stream_response scenario_env [Failure] []) =
     [Data \<lparr>chunk_id = ''chatcmpl_conv-1'', chunk_object = ''chat.completion.chunk'',
            chunk_model = JStr ''auto'', delta_content = Some ''(no text from upstream)'',
            finish_reason = None\<rparr>,
      Data \<lparr>chunk_id = ''chatcmpl_conv-1'', chunk_object = ''chat.completion.chunk'',
            chunk_model = JStr ''auto'', delta_content = None, finish_reason = Some ''stop''\<rparr>,
      Raw (''data: [DONE]'' @ [LF, LF]), End]"
proof -
  have a: "written (hint_if_empty scenario_env (read_loop scenario_env
      [Value (''data: '' @ text_payload ''Hi'' @ [LF, LF] @ ''data: ''), Failure,
       Value (text_payload ''Hi there'' @ [LF, LF])] (initial_state [])))
     = [Data \<lparr>chunk_id = ''chatcmpl_conv-1'', chunk_object = ''chat.completion.chunk'',
            chunk_model = JStr ''auto'', delta_content = Some ''Hi'', finish_reason = None\<rparr>]"
    by code_simp
  have b: "written (hint_if_empty scenario_env (read_loop scenario_env [Failure] (initial_state [])))
     = [Data \<lparr>chunk_id = ''chatcmpl_conv-1'', chunk_object = ''chat.completion.chunk'',
            chunk_model = JStr ''auto'', delta_content = Some ''(no text from upstream)'',
            finish_reason = None\<rparr>]"
    by code_simp
  have c: "conversationId scenario_env = ''conv-1''" "model scenario_env = JStr ''auto''"
    by (simp_all add: scenario_env_def)
  from stream_always_terminated [of scenario_env
      "[Value (''data: '' @ text_payload ''Hi'' @ [LF, LF] @ ''data: ''), Failure,
        Value (text_payload ''Hi there'' @ [LF, LF])]" "[]"]
    stream_always_terminated [of scenario_env "[Failure]" "[]"]
  show ?thesis by (simp only: a b c) simp
qed

section \<open>The list of samples\<close>



text \<open>
  With a limit that is not a number the trim is refused, and the push only adds.
\<close>

lemma pushDebugEvent_NaN: "pushDebugEvent NaN events obj = obj # events"
  by (simp add: pushDebugEvent_def redis_ltrim_def trim_stop_def lpush_def)






section \<open>Account resolution\<close>

lemma getAccountByUserKey_Some:
  "getAccountByUserKey s k = Some a \<longleftrightarrow>
     k \<noteq> [] \<and> (\<exists>home. userkey s k = Some home \<and> home \<noteq> [] \<and> account_of s home = Some a)"
  by (auto simp: getAccountByUserKey_def split: option.splits)


text \<open>
  C7, as amended. For a request that passes the gateway token and whose model
  normalizes: a caller key longer than 10 code units decides alone, whatever the
  session is (the account it resolves to, or 401 when it resolves to none); without
  such a key (none, or one of at most 10 code units) the session's account is used
  when the session has one, and the answer is 401 when it has none.
\<close>

theorem account_resolution:
  assumes "requireGatewayToken tok req" and "normalizeMode (body_model req) = Inr mode"
  shows "(\<forall>k. x_user_key req = Some k \<and> length k > 10 \<longrightarrow>
            chat_completions_account tok s req =
              (case getAccountByUserKey s k of
                 None \<Rightarrow> Reply 401 ''Invalid X-User-Key or expired.''
               | Some a \<Rightarrow> Resolved a mode))
       \<and> (x_user_key req = None \<or> (\<exists>k. x_user_key req = Some k \<and> length k \<le> 10) \<longrightarrow>
            chat_completions_account tok s req =
              (case session_account req of
                 None \<Rightarrow> Reply 401 ''No user context. Use X-User-Key.''
               | Some a \<Rightarrow>
                   if homeAccountId a = [] then Reply 401 ''No user context. Use X-User-Key.''
                   else Resolved a mode))"
proof (intro conjI allI impI)
  fix k
  assume "x_user_key req = Some k \<and> length k > 10"
  then have "getUserContext req = Some (UserKey k)"
    by (simp add: getUserContext_def)
  with assms show "chat_completions_account tok s req =
      (case getAccountByUserKey s k of
         None \<Rightarrow> Reply 401 ''Invalid X-User-Key or expired.''
       | Some a \<Rightarrow> Resolved a mode)"
    by (simp add: chat_completions_account_def)
next
  assume "x_user_key req = None \<or> (\<exists>k. x_user_key req = Some k \<and> length k \<le> 10)"
  then have ctx: "getUserContext req =
      (case session_account req of
         None \<Rightarrow> None
       | Some a \<Rightarrow> if homeAccountId a \<noteq> [] then Some (Session a) else None)"
    by (auto simp: getUserContext_def)
  from assms show "chat_completions_account tok s req =
      (case session_account req of
         None \<Rightarrow> Reply 401 ''No user context. Use X-User-Key.''
       | Some a \<Rightarrow>
           if homeAccountId a = [] then Reply 401 ''No user context. Use X-User-Key.''
           else Resolved a mode)"
    by (simp add: chat_completions_account_def ctx split: option.splits)
qed

theorem account_resolution_witness:
  "requireGatewayToken ''secret''
      \<lparr>authorization = Some ''Bearer secret'', x_user_key = Some ''key-alice-0123456789'',
       session_account = Some bob, body_model = Some (JStr ''fast'')\<rparr>
   \<and> chat_completions_account ''secret'' alice_store
      \<lparr>authorization = Some ''Bearer secret'', x_user_key = Some ''key-alice-0123456789'',
       session_account = Some bob, body_model = Some (JStr ''fast'')\<rparr> = Resolved alice ''fast''
   \<and> chat_completions_account ''secret'' alice_store
      \<lparr>authorization = Some ''Bearer secret'', x_user_key = Some ''key-nobody-0123456789'',
       session_account = Some bob, body_model = Some (JStr ''fast'')\<rparr>
       = Reply 401 ''Invalid X-User-Key or expired.''
   \<and> chat_completions_account ''secret'' alice_store
      \<lparr>authorization = Some ''Bearer secret'', x_user_key = Some ''short'',
       session_account = None, body_model = Some (JStr ''fast'')\<rparr>
       = Reply 401 ''No user context. Use X-User-Key.''
   \<and> chat_completions_account ''secret'' alice_store
      \<lparr>authorization = Some ''Bearer secret'', x_user_key = None,
       session_account = None, body_model = Some (JStr ''fast'')\<rparr>
       = Reply 401 ''No user context. Use X-User-Key.''"
proof -
  let ?r1 = "\<lparr>authorization = Some ''Bearer secret'', x_user_key = Some ''key-alice-0123456789'',
       session_account = Some bob, body_model = Some (JStr ''fast'')\<rparr>"
  let ?r2 = "\<lparr>authorization = Some ''Bearer secret'', x_user_key = Some ''key-nobody-0123456789'',
       session_account = Some bob, body_model = Some (JStr ''fast'')\<rparr>"
  let ?r3 = "\<lparr>authorization = Some ''Bearer secret'', x_user_key = Some ''short'',
       session_account = None, body_model = Some (JStr ''fast'')\<rparr>"
  let ?r4 = "\<lparr>authorization = Some ''Bearer secret'', x_user_key = None,
       session_account = None, body_model = Some (JStr ''fast'')\<rparr>"
  have g: "requireGatewayToken ''secret'' ?r1" "requireGatewayToken ''secret'' ?r2"
    "requireGatewayToken ''secret'' ?r3" "requireGatewayToken ''secret'' ?r4"
    by (simp_all add: requireGatewayToken_def)
  have m: "normalizeMode (Some (JStr ''fast'')) = Inr ''fast''" by code_simp
  have m': "normalizeMode (body_model ?r1) = Inr ''fast''" "normalizeMode (body_model ?r2) = Inr ''fast''"
    "normalizeMode (body_model ?r3) = Inr ''fast''" "normalizeMode (body_model ?r4) = Inr ''fast''"
    by (simp_all add: m)
  have k1: "getAccountByUserKey alice_store ''key-alice-0123456789'' = Some alice"
    by (simp add: getAccountByUserKey_def alice_store_def empty_store_def)
  have k2: "getAccountByUserKey alice_store ''key-nobody-0123456789'' = None"
    by (simp add: getAccountByUserKey_def alice_store_def empty_store_def)
  from account_resolution [OF g(1) m'(1), of alice_store] k1
  have a: "chat_completions_account ''secret'' alice_store ?r1 = Resolved alice ''fast''" by simp
  from account_resolution [OF g(2) m'(2), of alice_store] k2
  have b: "chat_completions_account ''secret'' alice_store ?r2 = Reply 401 ''Invalid X-User-Key or expired.''"
    by simp
  from account_resolution [OF g(3) m'(3), of alice_store]
  have c: "chat_completions_account ''secret'' alice_store ?r3 = Reply 401 ''No user context. Use X-User-Key.''"
    by simp
  from account_resolution [OF g(4) m'(4), of alice_store]
  have d: "chat_completions_account ''secret'' alice_store ?r4 = Reply 401 ''No user context. Use X-User-Key.''"
    by simp
  from g(1) a b c d show ?thesis by blast
qed


text \<open>
  A malformed key beside a session is passed over and the session's account is used:
  the answer is not 401.
\<close>

theorem malformed_key_with_session_counterexample:
  "length ''short'' \<le> 10
   \<and> chat_completions_account ''secret'' alice_store
      \<lparr>authorization = Some ''Bearer secret'', x_user_key = Some ''short'',
       session_account = Some bob, body_model = None\<rparr> = Resolved bob ''auto''"
proof -
  have m: "normalizeMode None = Inr ''auto''" by code_simp
  show ?thesis
    by (simp add: chat_completions_account_def requireGatewayToken_def getUserContext_def m bob_def)
qed

section \<open>Token acquisition\<close>

lemma token_failure_keeps_store:
  "acquireAccessToken client account (s, tc) = (Inl err, s', tc') \<Longrightarrow> s' = s"
  by (auto simp: acquireAccessToken_def Let_def split: sum.splits prod.splits)


text \<open>
  C8. When \<open>acquireAccessToken\<close> returns an access token, the store it leaves holds,
  under the account, the serialized token cache as the silent acquisition left it: the
  cache was saved before the token is returned.
\<close>

theorem token_cache_persisted:
  assumes "acquireAccessToken client account (s, tc) = (Inr token, s', tc')"
  shows "loadMsalCache s' (homeAccountId account) = Some (serialize client tc')
       \<and> s' = saveMsalCache s (homeAccountId account) (serialize client tc')
       \<and> (\<exists>tc1. acquireTokenSilent client tc1 account = Inr (token, tc'))"
  using assms
  by (auto simp: acquireAccessToken_def Let_def loadMsalCache_def saveMsalCache_def
      split: sum.splits prod.splits option.splits if_splits)


theorem token_cache_persisted_witness:
  "acquireAccessToken rotating_client alice (alice_store, [])
     = (Inr ''token-for-home-alice'', saveMsalCache alice_store ''home-alice'' ''blob+'', ''blob+'')
   \<and> loadMsalCache (saveMsalCache alice_store ''home-alice'' ''blob+'') ''home-alice'' = Some ''blob+''"
proof -
  have run: "acquireAccessToken rotating_client alice (alice_store, [])
     = (Inr ''token-for-home-alice'', saveMsalCache alice_store ''home-alice'' ''blob+'', ''blob+'')"
    by (simp add: acquireAccessToken_def rotating_client_def alice_def alice_store_def
        empty_store_def loadMsalCache_def saveMsalCache_def)
  from token_cache_persisted [OF run] run show ?thesis
    by (simp add: rotating_client_def alice_def)
qed

section \<open>Device flow\<close>

text \<open>
  C9. After the callback has stored the transaction, the status poll returns the record
  with status \<open>pending\<close>, the \<open>user_code\<close> and the \<open>verification_uri\<close>. After the
  provider has issued tokens for an account, in whatever state the store then is, the
  poll of the same transaction returns the record with status \<open>complete\<close> and the new
  \<open>user_key\<close> (the pending record with these properties set, when it is still
  there), and the new key resolves to the account.
\<close>

theorem device_flow_status:
  "device_status (deviceCodeCallback tx created response s) tx = Inr (deviceInfo tx created response)
   \<and> status (deviceInfo tx created response) = Some ''pending''
   \<and> user_code (deviceInfo tx created response) = Some (userCode response)
   \<and> verification_uri (deviceInfo tx created response) = Some (verificationUri response)
   \<and> (homeAccountId account \<noteq> [] \<longrightarrow>
        device_status (device_flow_finish tx (Issued (Some account) cache) userKey now s') tx
          = Inr ((current_tx s' tx)\<lparr>status := Some ''complete'', user_key := Some userKey,
                                     completedAt := Some now\<rparr>)
        \<and> device_status (device_flow_finish tx (Issued (Some account) cache) userKey now
              (deviceCodeCallback tx created response s)) tx
          = Inr ((deviceInfo tx created response)\<lparr>status := Some ''complete'',
                   user_key := Some userKey, completedAt := Some now\<rparr>)
        \<and> (userKey \<noteq> [] \<longrightarrow>
             getAccountByUserKey (device_flow_finish tx (Issued (Some account) cache) userKey now s')
               userKey = Some account))"
proof -
  have pending: "device_status (deviceCodeCallback tx created response s) tx
      = Inr (deviceInfo tx created response)"
    by (simp add: device_status_def deviceCodeCallback_def)
  have fields: "status (deviceInfo tx created response) = Some ''pending''"
    "user_code (deviceInfo tx created response) = Some (userCode response)"
    "verification_uri (deviceInfo tx created response) = Some (verificationUri response)"
    by (simp_all add: deviceInfo_def)
  have cur: "current_tx (s0\<lparr>devtx := d\<rparr>) tx = (case d tx of Some i \<Rightarrow> i | None \<Rightarrow> current_tx (s0\<lparr>devtx := Map.empty\<rparr>) tx)"
    for s0 :: store and d
    by (simp add: current_tx_def split: option.splits)
  have complete: "device_status (device_flow_finish tx (Issued (Some account) cache) userKey now s0) tx
          = Inr ((current_tx s0 tx)\<lparr>status := Some ''complete'', user_key := Some userKey,
                                     completedAt := Some now\<rparr>)"
    if "homeAccountId account \<noteq> []" for s0
    using that
    by (simp add: device_flow_finish_def device_status_def saveMsalCache_def current_tx_def Let_def)
  have after: "current_tx (deviceCodeCallback tx created response s) tx = deviceInfo tx created response"
    by (simp add: current_tx_def deviceCodeCallback_def)
  have key: "getAccountByUserKey (device_flow_finish tx (Issued (Some account) cache) userKey now s0)
               userKey = Some account"
    if "homeAccountId account \<noteq> []" and "userKey \<noteq> []" for s0
    using that
    by (simp add: device_flow_finish_def getAccountByUserKey_def saveMsalCache_def Let_def)
  from pending fields complete [of s'] complete [of "deviceCodeCallback tx created response s"]
    after key [of s']
  show ?thesis by simp
qed

theorem device_flow_status_witness:
  "homeAccountId alice \<noteq> []
   \<and> device_status (deviceCodeCallback ''tx-1'' 1000 sample_response empty_store) ''tx-1''
       = Inr (deviceInfo ''tx-1'' 1000 sample_response)
   \<and> user_code (deviceInfo ''tx-1'' 1000 sample_response) = Some ''ABCD-EFGH''
   \<and> device_status
        (device_flow_finish ''tx-1'' (Issued (Some alice) ''blob'') ''k3yk3yk3yk3yk3yk3yk3yk3yk3yk3yk3'' 2000
           (deviceCodeCallback ''tx-1'' 1000 sample_response empty_store)) ''tx-1''
       = Inr ((deviceInfo ''tx-1'' 1000 sample_response)
               \<lparr>status := Some ''complete'', user_key := Some ''k3yk3yk3yk3yk3yk3yk3yk3yk3yk3yk3'',
                completedAt := Some 2000\<rparr>)
   \<and> getAccountByUserKey
        (device_flow_finish ''tx-1'' (Issued (Some alice) ''blob'') ''k3yk3yk3yk3yk3yk3yk3yk3yk3yk3yk3'' 2000
           (deviceCodeCallback ''tx-1'' 1000 sample_response empty_store))
        ''k3yk3yk3yk3yk3yk3yk3yk3yk3yk3yk3'' = Some alice"
proof -
  have h: "homeAccountId alice \<noteq> []" by (simp add: alice_def)
  have c: "user_code (deviceInfo ''tx-1'' 1000 sample_response) = Some ''ABCD-EFGH''"
    by (simp add: deviceInfo_def sample_response_def)
  have k: "''k3yk3yk3yk3yk3yk3yk3yk3yk3yk3yk3'' \<noteq> []" by simp
  from device_flow_status [of "''tx-1''" 1000 sample_response empty_store alice "''blob''"
      "''k3yk3yk3yk3yk3yk3yk3yk3yk3yk3yk3''" 2000
      "deviceCodeCallback ''tx-1'' 1000 sample_response empty_store"] h c k
  show ?thesis by blast
qed

end
